theory Spec2Isabelle
  imports Main "HOL-Library.Sublist"
begin

section \<open>Text, characters and the string methods the scripts call\<close>

text \<open>
  The two scripts \<^verbatim>\<open>fix_backticks.py\<close> and \<^verbatim>\<open>fix_backticks2.py\<close> work on Python
  \<^verbatim>\<open>str\<close> values. A text is modelled as a \<^typ>\<open>string\<close>, one \<^typ>\<open>char\<close> for each code
  point below 256. The scripts tell characters apart only by comparing them with ASCII
  literals and by \<^verbatim>\<open>str.isspace\<close>, and both whitespace classes (in and out of ASCII) occur
  below 256, so every behaviour of the scripts shows on such texts.
\<close>

abbreviation bt :: char where "bt \<equiv> CHR 0x60"
abbreviation sq :: char where "sq \<equiv> CHR 0x27"
abbreviation dq :: char where "dq \<equiv> CHR 0x22"
abbreviation bs :: char where "bs \<equiv> CHR 0x5C"
abbreviation nl :: char where "nl \<equiv> CHR 0x0A"

text \<open>
  \<^verbatim>\<open>str.isspace\<close> of one character, which is also what \<^verbatim>\<open>\s\<close> matches in a \<^verbatim>\<open>str\<close>
  pattern: the code points 9 to 13, 28 to 32, 133 and 160.
\<close>

definition isspace :: "char \<Rightarrow> bool" where
  "isspace c \<longleftrightarrow> c \<in> set [CHR 0x09, CHR 0x0A, CHR 0x0B, CHR 0x0C, CHR 0x0D,
     CHR 0x1C, CHR 0x1D, CHR 0x1E, CHR 0x1F, CHR 0x20, CHR 0x85, CHR 0xA0]"

text \<open>\<^verbatim>\<open>s.strip()\<close>, \<^verbatim>\<open>s.startswith(p)\<close>, \<^verbatim>\<open>s.endswith(p)\<close> and \<^verbatim>\<open>p in s\<close>.\<close>

definition strip :: "string \<Rightarrow> string" where
  "strip s = rev (dropWhile isspace (rev (dropWhile isspace s)))"

definition startswith :: "string \<Rightarrow> string \<Rightarrow> bool" where
  "startswith s p = prefix p s"

definition endswith :: "string \<Rightarrow> string \<Rightarrow> bool" where
  "endswith s p = suffix p s"

definition contains :: "string \<Rightarrow> string \<Rightarrow> bool" where
  "contains s p = sublist p s"

text \<open>
  \<^verbatim>\<open>s.replace(old, new)\<close>: every occurrence of \<^verbatim>\<open>old\<close>, found from the left and without
  overlap, becomes \<^verbatim>\<open>new\<close>. With an empty \<^verbatim>\<open>old\<close> Python puts \<^verbatim>\<open>new\<close> before every
  character and at the end.
\<close>

function replace :: "string \<Rightarrow> string \<Rightarrow> string \<Rightarrow> string" where
  "replace old new [] = (if old = [] then new else [])"
| "replace old new (x # s) =
     (if old = [] then new @ x # replace old new s
      else if prefix old (x # s) then new @ replace old new (drop (length old) (x # s))
      else x # replace old new s)"
  by pat_completeness auto
termination
  by (relation "measure (\<lambda>(old, new, s). length s)") auto

text \<open>
  \<^verbatim>\<open>s.count(sub)\<close> for a non-empty \<^verbatim>\<open>sub\<close>: the occurrences counted from the left
  without overlap. (For an empty \<^verbatim>\<open>sub\<close> Python answers \<^verbatim>\<open>len(s) + 1\<close>.)
\<close>

function count_str :: "string \<Rightarrow> string \<Rightarrow> nat" where
  "count_str sub [] = (if sub = [] then 1 else 0)"
| "count_str sub (x # s) =
     (if sub = [] then Suc (count_str sub s)
      else if prefix sub (x # s) then Suc (count_str sub (drop (length sub) (x # s)))
      else count_str sub s)"
  by pat_completeness auto
termination
  by (relation "measure (\<lambda>(sub, s). length s)") auto

text \<open>
  The first occurrence of a separator: the text before it and the text after it.
  \<^verbatim>\<open>s.split(sep, 1)\<close> and \<^verbatim>\<open>s.split(sep)\<close> are built on it. Python raises
  \<^verbatim>\<open>ValueError\<close> on an empty separator; the scripts pass only the literals
  \<^verbatim>\<open>'content: `'\<close> and \<^verbatim>\<open>'\n'\<close>, and the model answers \<open>[s]\<close> there.
\<close>

fun find_sep :: "string \<Rightarrow> string \<Rightarrow> (string \<times> string) option" where
  "find_sep sep [] = None"
| "find_sep sep (x # s) =
     (if prefix sep (x # s) then Some ([], drop (length sep) (x # s))
      else (case find_sep sep s of
              None \<Rightarrow> None
            | Some (a, b) \<Rightarrow> Some (x # a, b)))"

definition split1 :: "string \<Rightarrow> string \<Rightarrow> string list" where
  "split1 sep s =
     (if sep = [] then [s]
      else (case find_sep sep s of None \<Rightarrow> [s] | Some (a, b) \<Rightarrow> [a, b]))"

lemma find_sep_shorter: "sep \<noteq> [] \<Longrightarrow> find_sep sep s = Some (a, b) \<Longrightarrow> length b < length s"
  by (induction s arbitrary: a) (auto split: if_splits option.splits)

function split :: "string \<Rightarrow> string \<Rightarrow> string list" where
  "split sep s =
     (if sep = [] then [s]
      else (case find_sep sep s of None \<Rightarrow> [s] | Some (a, b) \<Rightarrow> a # split sep b))"
  by pat_completeness auto
termination
  by (relation "measure (\<lambda>(sep, s). length s)") (auto simp: find_sep_shorter)

declare split.simps [simp del]

text \<open>\<^verbatim>\<open>sep.join(parts)\<close>.\<close>

fun join :: "string \<Rightarrow> string list \<Rightarrow> string" where
  "join sep [] = []"
| "join sep [p] = p"
| "join sep (p # q # ps) = p @ sep @ join sep (q # ps)"

section \<open>Regular expressions\<close>

text \<open>
  The patterns of the scripts are sequences of literals, character classes, greedy
  repetitions of a class, groups, an alternative of two literals and the anchor \<^verbatim>\<open>$\<close>. A
  class is \<^verbatim>\<open>\s\<close> or a negated set (\<^verbatim>\<open>.\<close> is the negated set of the newline).
  \<open>Mark\<close> stands for a parenthesis: it records the position reached.
\<close>

datatype cls = Space | NotIn "char list"

fun in_cls :: "cls \<Rightarrow> char \<Rightarrow> bool" where
  "in_cls Space c = isspace c"
| "in_cls (NotIn cs) c = (c \<notin> set cs)"

datatype atom = Lit string | Alt string string | One cls | Star cls | Plus cls | Mark | Eol

text \<open>
  \<open>rx r s\<close> matches the pattern \<open>r\<close> at the start of \<open>s\<close> as Python's backtracking matcher
  does: a repetition first takes as many characters as it can and gives them back one
  by one while the rest of the pattern fails; an alternative tries its branches in
  order. The answer is the text left at each \<open>Mark\<close> and the text left after the match.
  \<^verbatim>\<open>$\<close> (without \<^verbatim>\<open>re.MULTILINE\<close>) holds at the end of the text and before a final
  newline.
\<close>

fun rx :: "atom list \<Rightarrow> string \<Rightarrow> (string list \<times> string) option" where
  "rx [] s = Some ([], s)"
| "rx (Lit l # r) s = (if prefix l s then rx r (drop (length l) s) else None)"
| "rx (Alt l1 l2 # r) s =
     (case (if prefix l1 s then rx r (drop (length l1) s) else None) of
        Some m \<Rightarrow> Some m
      | None \<Rightarrow> (if prefix l2 s then rx r (drop (length l2) s) else None))"
| "rx (One c # r) [] = None"
| "rx (One c # r) (x # s) = (if in_cls c x then rx r s else None)"
| "rx (Star c # r) [] = rx r []"
| "rx (Star c # r) (x # s) =
     (if in_cls c x
      then (case rx (Star c # r) s of Some m \<Rightarrow> Some m | None \<Rightarrow> rx r (x # s))
      else rx r (x # s))"
| "rx (Plus c # r) [] = None"
| "rx (Plus c # r) (x # s) = (if in_cls c x then rx (Star c # r) s else None)"
| "rx (Mark # r) s = (case rx r s of None \<Rightarrow> None | Some (ms, e) \<Rightarrow> Some (s # ms, e))"
| "rx (Eol # r) s = (if s = [] \<or> s = [nl] then rx r s else None)"

text \<open>
  The text between two positions of one match, each position given by the text left
  there.
\<close>

definition between :: "string \<Rightarrow> string \<Rightarrow> string" where
  "between a b = take (length a - length b) a"

text \<open>
  \<^verbatim>\<open>re.search\<close>: the match at the leftmost position that has one. The answer is the
  text from the start of the match on, the marks and the text after the match.
\<close>

fun re_search :: "atom list \<Rightarrow> string \<Rightarrow> (string \<times> string list \<times> string) option" where
  "re_search r [] = (case rx r [] of None \<Rightarrow> None | Some (ms, e) \<Rightarrow> Some ([], ms, e))"
| "re_search r (x # s) =
     (case rx r (x # s) of
        None \<Rightarrow> re_search r s
      | Some (ms, e) \<Rightarrow> Some (x # s, ms, e))"

text \<open>
  \<^verbatim>\<open>re.sub\<close> with a replacement computed from the match: the matches are found from the
  left without overlap, the text between them is copied. The patterns the scripts
  substitute begin with a literal, so the branch for an empty match is never taken;
  there the replacement is emitted and the scan moves on by one character.
\<close>

function re_sub :: "atom list \<Rightarrow> (string \<Rightarrow> string list \<Rightarrow> string \<Rightarrow> string) \<Rightarrow> string \<Rightarrow> string" where
  "re_sub r f [] = (case rx r [] of None \<Rightarrow> [] | Some (ms, e) \<Rightarrow> f [] ms e)"
| "re_sub r f (x # s) =
     (case rx r (x # s) of
        None \<Rightarrow> x # re_sub r f s
      | Some (ms, e) \<Rightarrow>
          if length e < length (x # s) then f (x # s) ms e @ re_sub r f e
          else f (x # s) ms e @ x # re_sub r f s)"
  by pat_completeness auto
termination
  by (relation "measure (\<lambda>(r, f, s). length s)") auto

text \<open>
  \<^verbatim>\<open>re.sub(r'(?<!\\)`', r'\\`', s)\<close>, used by both scripts: a backtick gets a backslash
  in front unless the character before it in \<^verbatim>\<open>s\<close> is a backslash. The flag says whether
  the previous character was a backslash.
\<close>

fun escape_from :: "bool \<Rightarrow> string \<Rightarrow> string" where
  "escape_from b [] = []"
| "escape_from b (x # s) = (if x = bt \<and> \<not> b then [bs, bt] else [x]) @ escape_from (x = bs) s"

definition escape_backticks :: "string \<Rightarrow> string" where
  "escape_backticks s = escape_from False s"

section \<open>The first script, \<^verbatim>\<open>fix_backticks.py\<close>\<close>

definition role_in :: string where "role_in = ''role: '' @ [sq] @ ''`input`'' @ [sq]"
definition role_out :: string where "role_out = ''role: '' @ [sq] @ ''`output`'' @ [sq]"
definition role_in_fixed :: string where "role_in_fixed = ''role: '' @ [sq] @ ''input'' @ [sq]"
definition role_out_fixed :: string where "role_out_fixed = ''role: '' @ [sq] @ ''output'' @ [sq]"

text \<open>The role values (lines 31 to 34).\<close>

definition fix_role1 :: "string \<Rightarrow> string" where
  "fix_role1 line =
     (let line = (if contains line role_in then replace role_in role_in_fixed line else line)
      in if contains line role_out then replace role_out role_out_fixed line else line)"

text \<open>\<^verbatim>\<open>description:\s*'([^']*`[^']*)'\<close>\<close>

definition desc_re :: "atom list" where
  "desc_re = [Lit ''description:'', Star Space, Lit [sq], Mark, Star (NotIn [sq]), Lit [bt],
              Star (NotIn [sq]), Mark, Lit [sq]]"

text \<open>The descriptions (lines 37 to 44): the first match loses its backticks.\<close>

definition fix_desc1 :: "string \<Rightarrow> string" where
  "fix_desc1 line =
     (if contains line ''description:'' \<and> contains line [bt] \<and> contains line [sq]
      then (case re_search desc_re line of
              None \<Rightarrow> line
            | Some (st, ms, e) \<Rightarrow>
                let old_desc = between st e;
                    new_desc = replace [bt] [] old_desc
                in replace old_desc new_desc line)
      else line)"

text \<open>
  The content that opens a template literal (lines 47 to 57). Under the test of the
  first line \<^verbatim>\<open>split('content: `', 1)\<close> has two parts, so neither index is out of range.
\<close>

definition fix_escape1 :: "string \<Rightarrow> string" where
  "fix_escape1 line =
     (if contains line ''content: `'' \<and> \<not> endswith (strip line) [bt]
      then let content_part =
                 (if contains line ''content: `'' then split1 ''content: `'' line ! 1 else [])
           in if contains content_part [bt] \<and> \<not> endswith content_part [bt]
              then let before_content = hd (split ''content: `'' line) @ ''content: `'';
                       after_content = content_part;
                       fixed_content = escape_backticks after_content
                   in before_content @ fixed_content
              else line
      else line)"

text \<open>
  \<^verbatim>\<open>^(\s*content:\s*)(.+)$\<close>. The script calls \<^verbatim>\<open>re.search\<close>, and \<^verbatim>\<open>^\<close> (without
  \<^verbatim>\<open>re.MULTILINE\<close>) holds at the start of the text only, so the search is a match at the
  start.
\<close>

definition wrap_re1 :: "atom list" where
  "wrap_re1 = [Star Space, Lit ''content:'', Star Space, Mark, Plus (NotIn [nl]), Mark, Eol]"

text \<open>The content with no delimiters (lines 60 to 71).\<close>

definition fix_wrap1 :: "string \<Rightarrow> string" where
  "fix_wrap1 line =
     (if contains line ''content:'' \<and> \<not> contains line ''content: `''
         \<and> \<not> contains line (''content: '' @ [sq]) \<and> \<not> contains line (''content: '' @ [dq, dq])
         \<and> startswith (strip line) ''content:''
      then (case rx wrap_re1 line of
              Some ([m1, m2], e) \<Rightarrow>
                let pre = between line m1;
                    text = strip (between m1 m2)
                in if text \<noteq> [] \<and> \<not> startswith text [bt] \<and> \<not> startswith text [sq]
                      \<and> \<not> startswith text [dq]
                   then pre @ [bt] @ text @ [bt]
                   else line
            | _ \<Rightarrow> line)
      else line)"

text \<open>One turn of the loop (lines 28 to 73): the four rules in the order of the script.\<close>

definition fix_line1 :: "string \<Rightarrow> string" where
  "fix_line1 line = fix_wrap1 (fix_escape1 (fix_desc1 (fix_role1 line)))"

section \<open>The second script, \<^verbatim>\<open>fix_backticks2.py\<close>\<close>

text \<open>\<^verbatim>\<open>role: '`(input|output)`'\<close>, replaced by \<^verbatim>\<open>role: '\1'\<close> (line 21).\<close>

definition role_re :: "atom list" where
  "role_re = [Lit (''role: '' @ [sq] @ ''`''), Mark, Alt ''input'' ''output'', Mark,
              Lit (''`'' @ [sq])]"

definition fix_role2 :: "string \<Rightarrow> string" where
  "fix_role2 line =
     re_sub role_re
       (\<lambda>st ms e. case ms of
                     [m1, m2] \<Rightarrow> ''role: '' @ [sq] @ between m1 m2 @ [sq]
                   | _ \<Rightarrow> [])
       line"

text \<open>
  \<^verbatim>\<open>description:\s*'[^']*`[^']*'\<close> is searched for, and on a match every pair
  \<^verbatim>\<open>`([^`]*)`\<close> of the line is replaced by what it encloses (lines 24 and 25).
\<close>

definition desc_re2 :: "atom list" where
  "desc_re2 = [Lit ''description:'', Star Space, Lit [sq], Star (NotIn [sq]), Lit [bt],
               Star (NotIn [sq]), Lit [sq]]"

definition pair_re :: "atom list" where
  "pair_re = [Lit [bt], Mark, Star (NotIn [bt]), Mark, Lit [bt]]"

text \<open>\<^verbatim>\<open>re.sub(r"`([^`]*)`", r"\1", line)\<close> (line 25).\<close>

definition strip_pairs :: "string \<Rightarrow> string" where
  "strip_pairs line =
     re_sub pair_re (\<lambda>st ms e. case ms of [m1, m2] \<Rightarrow> between m1 m2 | _ \<Rightarrow> []) line"

definition fix_desc2 :: "string \<Rightarrow> string" where
  "fix_desc2 line = (if re_search desc_re2 line \<noteq> None then strip_pairs line else line)"

text \<open>\<^verbatim>\<open>^(\s*content:\s*)([^`\'"][^\n]+)$\<close>, matched at the start by \<^verbatim>\<open>re.match\<close>.\<close>

definition wrap_re2 :: "atom list" where
  "wrap_re2 = [Star Space, Lit ''content:'', Star Space, Mark, One (NotIn [bt, sq, dq]),
               Plus (NotIn [nl]), Mark, Eol]"

text \<open>Case 1 (lines 31 to 36).\<close>

definition fix_wrap2 :: "string \<Rightarrow> string" where
  "fix_wrap2 line =
     (case rx wrap_re2 line of
        Some ([m1, m2], e) \<Rightarrow>
          let pre = between line m1;
              text = strip (between m1 m2)
          in if text \<noteq> [] \<and> \<not> endswith text [bt]
             then pre @ [bt] @ text @ [bt]
             else line
      | _ \<Rightarrow> line)"

text \<open>
  Case 2 (lines 40 to 58). \<^verbatim>\<open>rest[:-2]\<close> and \<^verbatim>\<open>rest[:-1]\<close> are taken of a text that
  ends with the two characters or the one character they drop.
\<close>

definition fix_escape2 :: "string \<Rightarrow> string" where
  "fix_escape2 line =
     (if contains line ''content: `'' \<and> count_str [bt] line > 2
      then let parts = split1 ''content: `'' line
           in if length parts = 2
              then let pre = parts ! 0 @ ''content: `'';
                       rest = parts ! 1
                   in if endswith rest [bt] \<or> endswith rest ''`,''
                      then let (inner, suffix) =
                                 (if endswith rest ''`,''
                                  then (take (length rest - 2) rest, ''`,'')
                                  else (take (length rest - 1) rest, ''`''))
                           in pre @ escape_backticks inner @ suffix
                      else line
              else line
      else line)"

text \<open>One turn of the loop (lines 18 to 61).\<close>

definition fix_line2 :: "string \<Rightarrow> string" where
  "fix_line2 line =
     (let line = fix_role2 line;
          line = fix_desc2 line
      in if contains line ''content:'' then fix_escape2 (fix_wrap2 line) else line)"

section \<open>The whole text, the file and the command line\<close>

text \<open>
  \<^verbatim>\<open>content.split('\n')\<close>, the loop over the lines, \<^verbatim>\<open>'\n'.join(fixed_lines)\<close>.
\<close>

definition fix_content1 :: "string \<Rightarrow> string" where
  "fix_content1 content = join [nl] (map fix_line1 (split [nl] content))"

definition fix_content2 :: "string \<Rightarrow> string" where
  "fix_content2 content = join [nl] (map fix_line2 (split [nl] content))"

text \<open>
  The files are a map from paths to the text that reading in text mode gives. Opening
  a path that is not there raises; the exception ends the script, nothing is written
  and nothing is printed. A run that succeeds gives the new files and the lines
  printed.
\<close>

datatype error = FileNotFoundError

type_synonym files = "string \<rightharpoonup> string"

definition fix_file1 :: "string \<Rightarrow> files \<Rightarrow> error + files \<times> string list" where
  "fix_file1 filepath fs =
     (case fs filepath of
        None \<Rightarrow> Inl FileNotFoundError
      | Some content \<Rightarrow> Inr (fs(filepath \<mapsto> fix_content1 content), [''Fixed '' @ filepath]))"

definition fix_file2 :: "string \<Rightarrow> files \<Rightarrow> error + files \<times> string list" where
  "fix_file2 filepath fs =
     (case fs filepath of
        None \<Rightarrow> Inl FileNotFoundError
      | Some content \<Rightarrow> Inr (fs(filepath \<mapsto> fix_content2 content), [''Fixed '' @ filepath]))"

text \<open>
  The entry points. \<open>argv\<close> is \<^verbatim>\<open>sys.argv\<close>: the script name, then the arguments. The
  first script reads \<^verbatim>\<open>sys.argv[1]\<close> when there is one (lines 82 and 83); the second
  script never looks at \<^verbatim>\<open>sys.argv\<close> (line 69).
\<close>

definition main1 :: "string list \<Rightarrow> files \<Rightarrow> error + files \<times> string list" where
  "main1 argv fs =
     (let filepath = (if length argv > 1 then argv ! 1 else ''src/data/chapters.ts'')
      in fix_file1 filepath fs)"

definition main2 :: "string list \<Rightarrow> files \<Rightarrow> error + files \<times> string list" where
  "main2 argv fs = fix_file2 ''src/data/chapters.ts'' fs"

section \<open>Texts whose backticks are all escaped\<close>

text \<open>
  Every backtick of the text has a backslash right before it. The flag says whether the
  character before the text is a backslash.
\<close>

fun all_escaped :: "bool \<Rightarrow> string \<Rightarrow> bool" where
  "all_escaped b [] = True"
| "all_escaped b (x # s) = ((x \<noteq> bt \<or> b) \<and> all_escaped (x = bs) s)"

section \<open>Lines that hold one field\<close>


section \<open>Lines that no rule can touch\<close>

lemma not_contains_longer: "sublist a b \<Longrightarrow> \<not> contains s a \<Longrightarrow> \<not> contains s b"
  unfolding contains_def sublist_def by (metis append.assoc)

lemma re_search_Lit_None: "\<not> sublist l s \<Longrightarrow> re_search (Lit l # r) s = None"
  by (induction s) (auto simp: sublist_Cons_right)

lemma re_sub_Lit_id: "\<not> sublist l s \<Longrightarrow> re_sub (Lit l # r) f s = s"
  by (induction s) (auto simp: sublist_Cons_right)


lemma fix_role1_id: "\<not> contains line ''role:'' \<Longrightarrow> fix_role1 line = line"
proof -
  assume h: "\<not> contains line ''role:''"
  have "sublist ''role:'' role_in" "sublist ''role:'' role_out"
    by (simp_all add: role_in_def role_out_def)
  with h have "\<not> contains line role_in" "\<not> contains line role_out"
    by (auto dest: not_contains_longer)
  then show ?thesis by (simp add: fix_role1_def)
qed

lemma fix_role2_id: "\<not> contains line ''role:'' \<Longrightarrow> fix_role2 line = line"
proof -
  assume h: "\<not> contains line ''role:''"
  have "sublist ''role:'' (''role: '' @ [sq] @ ''`'')" by simp
  with h have "\<not> sublist (''role: '' @ [sq] @ ''`'') line"
    using not_contains_longer contains_def by blast
  then show ?thesis unfolding fix_role2_def role_re_def by (rule re_sub_Lit_id)
qed

lemma fix_desc1_id: "\<not> contains line ''description:'' \<Longrightarrow> fix_desc1 line = line"
  by (simp add: fix_desc1_def)

lemma fix_desc2_id: "\<not> contains line ''description:'' \<Longrightarrow> fix_desc2 line = line"
  unfolding fix_desc2_def desc_re2_def by (simp add: re_search_Lit_None contains_def)

lemma fix_escape1_id: "\<not> contains line ''content: `'' \<Longrightarrow> fix_escape1 line = line"
  by (simp add: fix_escape1_def)

lemma fix_wrap1_id: "\<not> contains line ''content:'' \<Longrightarrow> fix_wrap1 line = line"
  by (simp add: fix_wrap1_def)

lemma content_bt_marker: "sublist ''content:'' ''content: `''"
  by (simp add: sublist_code)

lemma no_marker_unchanged1:
  assumes "\<not> contains line ''role:''" "\<not> contains line ''description:''"
    "\<not> contains line ''content:''"
  shows "fix_line1 line = line"
proof -
  have "\<not> contains line ''content: `''"
    using assms(3) content_bt_marker not_contains_longer by blast
  then show ?thesis
    using assms by (simp add: fix_line1_def fix_role1_id fix_desc1_id fix_escape1_id fix_wrap1_id)
qed

lemma no_marker_unchanged2:
  assumes "\<not> contains line ''role:''" "\<not> contains line ''description:''"
    "\<not> contains line ''content:''"
  shows "fix_line2 line = line"
  using assms by (simp add: fix_line2_def fix_role2_id fix_desc2_id)

section \<open>The matcher on texts of a known shape\<close>

lemma dropWhile_pad: "\<forall>c\<in>set w. P c \<Longrightarrow> x \<noteq> [] \<Longrightarrow> \<not> P (hd x) \<Longrightarrow> dropWhile P (w @ x) = x"
  by (induction w) (auto simp: neq_Nil_conv)

lemma strip_pad:
  assumes "\<forall>c\<in>set w1. isspace c" "\<forall>c\<in>set w2. isspace c" "x \<noteq> []"
    "\<not> isspace (hd x)" "\<not> isspace (last x)"
  shows "strip (w1 @ x @ w2) = x"
proof -
  have a: "dropWhile isspace (w1 @ x @ w2) = x @ w2"
    using assms by (intro dropWhile_pad) (auto simp: neq_Nil_conv)
  have "dropWhile isspace (rev w2 @ rev x) = rev x"
    using assms by (intro dropWhile_pad) (auto simp: hd_rev)
  then show ?thesis by (simp add: strip_def a)
qed

lemma strip_pad_right:
  assumes "\<forall>c\<in>set w2. isspace c" "x \<noteq> []" "\<not> isspace (hd x)" "\<not> isspace (last x)"
  shows "strip (x @ w2) = x"
  using strip_pad [of "[]" w2 x] assms by simp

lemma rx_Star_greedy:
  "\<forall>x\<in>set w. in_cls c x \<Longrightarrow> s = [] \<or> \<not> in_cls c (hd s) \<Longrightarrow> rx r s = Some m
   \<Longrightarrow> rx (Star c # r) (w @ s) = Some m"
  by (induction w) (cases s; auto)+

lemma rx_Star_all:
  "\<forall>x\<in>set w. in_cls c x \<Longrightarrow> rx r [] = Some m \<Longrightarrow> rx (Star c # r) w = Some m"
  using rx_Star_greedy [of w c "[]" r m] by simp

lemma rx_Plus_all:
  "w \<noteq> [] \<Longrightarrow> \<forall>x\<in>set w. in_cls c x \<Longrightarrow> rx r [] = Some m \<Longrightarrow> rx (Plus c # r) w = Some m"
  by (cases w) (auto simp: rx_Star_all)


lemma rx_suffix:
  "rx r s = Some (ms, e) \<Longrightarrow> suffix e s \<and> (\<forall>m\<in>set ms. suffix m s \<and> suffix e m)"
proof (induction r s arbitrary: ms e rule: rx.induct)
  case (1 s)
  then show ?case by simp
next
  case (2 l r s)
  then show ?case
    by (auto split: if_splits) (meson suffix_drop suffix_order.trans)+
next
  case (3 l1 l2 r s)
  then show ?case
    by (auto split: if_splits option.splits) (meson suffix_drop suffix_order.trans)+
next
  case (5 c r x s)
  then show ?case by (auto split: if_splits simp: suffix_Cons)
next
  case (7 c r x s)
  then show ?case by (auto split: if_splits option.splits simp: suffix_Cons)
next
  case (9 c r x s)
  then show ?case by (auto split: if_splits simp: suffix_Cons)
next
  case (10 r s)
  then show ?case by (auto split: option.splits)
next
  case (11 r s)
  then show ?case by (auto split: if_splits)
qed auto

lemma rx_needs_literal:
  "rx r s = Some m \<Longrightarrow> Lit l \<in> set r \<Longrightarrow> sublist l s"
proof (induction r s arbitrary: m rule: rx.induct)
  case (2 l' r s)
  then show ?case
    by (auto split: if_splits) (meson sublist_drop sublist_order.order.trans)
next
  case (3 l1 l2 r s)
  then show ?case
    by (auto split: if_splits option.splits) (meson sublist_drop sublist_order.order.trans)+
next
  case (5 c r x s)
  then show ?case by (auto split: if_splits simp: sublist_Cons_right)
next
  case (7 c r x s)
  then show ?case by (auto split: if_splits option.splits simp: sublist_Cons_right)
next
  case (9 c r x s)
  then show ?case by (auto split: if_splits simp: sublist_Cons_right)
next
  case (10 r s)
  then show ?case by (auto split: option.splits)
next
  case (11 r s)
  then show ?case by (auto split: if_splits)
qed auto

lemma re_search_needs_literal:
  "re_search r s = Some m \<Longrightarrow> Lit l \<in> set r \<Longrightarrow> sublist l s"
  by (induction s) (auto split: option.splits dest: rx_needs_literal simp: sublist_Cons_right)

lemma re_sub_needs_literal:
  "Lit l \<in> set r \<Longrightarrow> \<not> sublist l s \<Longrightarrow> re_sub r f s = s"
proof (induction s)
  case Nil
  then show ?case by (auto split: option.splits dest: rx_needs_literal)
next
  case (Cons x s)
  then have "rx r (x # s) = None" using rx_needs_literal by fastforce
  then show ?case using Cons by (simp add: sublist_Cons_right)
qed

lemma count_str_char: "count_str [c] s = length (filter (\<lambda>x. x = c) s)"
  by (induction s) auto

section \<open>Bare content lines\<close>

lemma isspace_simps [simp]:
  "isspace (CHR '' '')" "\<not> isspace bt" "\<not> isspace sq" "\<not> isspace dq" "\<not> isspace bs"
  "\<not> isspace (CHR ''c'')" "\<not> isspace (CHR '':'')" "\<not> isspace (CHR '','')"
  by (simp_all add: isspace_def)

lemma sublist_skip_ws_left:
  "\<forall>c\<in>set w. isspace c \<Longrightarrow> p \<noteq> [] \<Longrightarrow> \<not> isspace (hd p) \<Longrightarrow> sublist p (w @ r) = sublist p r"
  by (induction w) (auto simp: sublist_Cons_right prefix_Cons neq_Nil_conv)

lemma sublist_skip_ws_right:
  assumes "\<forall>c\<in>set w. isspace c" "p \<noteq> []" "\<not> isspace (last p)"
  shows "sublist p (r @ w) = sublist p r"
proof -
  have "sublist (rev p) (rev w @ rev r) = sublist (rev p) (rev r)"
    using assms by (intro sublist_skip_ws_left) (auto simp: hd_rev)
  then show ?thesis
    by (metis rev_append sublist_rev)
qed

lemma sublist_after_marker:
  "sublist (''content:'' @ q) (''content:'' @ r) \<longleftrightarrow> prefix q r \<or> sublist (''content:'' @ q) r"
  by (simp add: sublist_Cons_right)

lemma no_blank_then_char:
  assumes "\<forall>c\<in>set w2. isspace c" "t \<noteq> []" "\<not> isspace (hd t)" "\<not> isspace c" "c \<noteq> hd t"
  shows "\<not> prefix (CHR '' '' # c # q) (w2 @ t @ w3)"
proof (cases w2)
  case Nil
  then show ?thesis using assms by (cases t) (auto simp: prefix_Cons)
next
  case (Cons x w2')
  then show ?thesis using assms by (cases w2'; cases t) (auto simp: prefix_Cons)
qed

lemma delimited_marker_absent:
  assumes ws: "\<forall>c\<in>set w1. isspace c" "\<forall>c\<in>set w2. isspace c" "\<forall>c\<in>set w3. isspace c"
    and t: "t \<noteq> []" "\<not> isspace (hd t)" "\<not> isspace (last t)" "\<not> sublist ''content:'' t"
    and c: "\<not> isspace c" "c \<noteq> hd t" "\<not> isspace (last (c # q))"
  shows "\<not> sublist (''content: '' @ c # q) (w1 @ ''content:'' @ w2 @ t @ w3)"
proof -
  let ?p = "''content:'' @ CHR '' '' # c # q"
  have p: "?p \<noteq> []" "\<not> isspace (hd ?p)" "\<not> isspace (last ?p)"
    using c by auto
  have "sublist ?p (w1 @ ''content:'' @ w2 @ t @ w3) = sublist ?p (''content:'' @ w2 @ t @ w3)"
    using ws(1) p by (intro sublist_skip_ws_left) auto
  also have "\<dots> \<longleftrightarrow> prefix (CHR '' '' # c # q) (w2 @ t @ w3) \<or> sublist ?p (w2 @ t @ w3)"
    by (rule sublist_after_marker)
  also have "\<dots> \<longleftrightarrow> sublist ?p (w2 @ t @ w3)"
    using no_blank_then_char [OF ws(2) t(1) t(2) c(1) c(2)] by simp
  also have "\<dots> = sublist ?p (t @ w3)"
    using ws(2) p by (intro sublist_skip_ws_left) auto
  also have "\<dots> = sublist ?p t"
    using ws(3) p by (intro sublist_skip_ws_right) auto
  finally have eq: "sublist ?p (w1 @ ''content:'' @ w2 @ t @ w3) = sublist ?p t" .
  have "sublist ''content:'' ?p"
    by (rule sublist_append_rightI)
  then have "\<not> sublist ?p t"
    using t(4) sublist_order.order.trans by blast
  then show ?thesis
    using eq by simp
qed

lemma rx_wrap_re1_bare:
  assumes "\<forall>c\<in>set w1. isspace c" "\<forall>c\<in>set w2. isspace c" "u \<noteq> []" "\<not> isspace (hd u)"
    "nl \<notin> set u"
  shows "rx wrap_re1 (w1 @ ''content:'' @ w2 @ u) = Some ([u, []], [])"
proof -
  have 1: "rx [Plus (NotIn [nl]), Mark, Eol] u = Some ([[]], [])"
    using assms by (intro rx_Plus_all) auto
  have 2: "rx [Star Space, Mark, Plus (NotIn [nl]), Mark, Eol] (w2 @ u) = Some ([u, []], [])"
    using assms 1 by (intro rx_Star_greedy) auto
  have 3: "rx [Lit ''content:'', Star Space, Mark, Plus (NotIn [nl]), Mark, Eol]
             (''content:'' @ w2 @ u) = Some ([u, []], [])"
    using 2 by simp
  show ?thesis
    unfolding wrap_re1_def using assms(1) 3 by (intro rx_Star_greedy) auto
qed

lemma rx_wrap_re2_bare:
  assumes "\<forall>c\<in>set w1. isspace c" "\<forall>c\<in>set w2. isspace c" "\<not> isspace x" "x \<notin> {bt, sq, dq}"
    "u \<noteq> []" "nl \<notin> set u"
  shows "rx wrap_re2 (w1 @ ''content:'' @ w2 @ x # u) = Some ([x # u, []], [])"
proof -
  have 1: "rx [Plus (NotIn [nl]), Mark, Eol] u = Some ([[]], [])"
    using assms by (intro rx_Plus_all) auto
  have 2: "rx [Star Space, Mark, One (NotIn [bt, sq, dq]), Plus (NotIn [nl]), Mark, Eol]
             (w2 @ x # u) = Some ([x # u, []], [])"
    using assms 1 by (intro rx_Star_greedy) auto
  have 3: "rx [Lit ''content:'', Star Space, Mark, One (NotIn [bt, sq, dq]), Plus (NotIn [nl]),
               Mark, Eol] (''content:'' @ w2 @ x # u) = Some ([x # u, []], [])"
    using 2 by simp
  show ?thesis
    unfolding wrap_re2_def using assms(1) 3 by (intro rx_Star_greedy) auto
qed

lemma sublist_single: "sublist [c] s \<longleftrightarrow> c \<in> set s"
  by (induction s) (auto simp: sublist_Cons_right)

lemma sublist_needs_char: "sublist p s \<Longrightarrow> c \<in> set p \<Longrightarrow> c \<in> set s"
  using set_mono_sublist by fastforce

lemma not_sublist_char: "c \<in> set p \<Longrightarrow> c \<notin> set s \<Longrightarrow> \<not> sublist p s"
  using set_mono_sublist by fastforce

lemma no_bt_role1: "bt \<notin> set s \<Longrightarrow> fix_role1 s = s"
proof -
  assume h: "bt \<notin> set s"
  have "bt \<in> set role_in" "bt \<in> set role_out"
    by (simp_all add: role_in_def role_out_def)
  then have "\<not> sublist role_in s" "\<not> sublist role_out s"
    using h by (simp_all add: not_sublist_char)
  then show ?thesis by (simp add: fix_role1_def contains_def)
qed

lemma no_bt_desc1: "bt \<notin> set s \<Longrightarrow> fix_desc1 s = s"
  by (simp add: fix_desc1_def contains_def sublist_single)

lemma no_bt_escape1: "bt \<notin> set s \<Longrightarrow> fix_escape1 s = s"
proof -
  assume h: "bt \<notin> set s"
  have "\<not> sublist ''content: `'' s"
    by (rule not_sublist_char [OF _ h]) simp
  then show ?thesis by (simp add: fix_escape1_def contains_def)
qed

lemma no_bt_role2: "bt \<notin> set s \<Longrightarrow> fix_role2 s = s"
proof -
  assume h: "bt \<notin> set s"
  have "\<not> sublist (''`'' @ [sq]) s"
    by (rule not_sublist_char [OF _ h]) simp
  moreover have "Lit (''`'' @ [sq]) \<in> set role_re"
    by (simp add: role_re_def)
  ultimately show ?thesis
    unfolding fix_role2_def by (rule re_sub_needs_literal [rotated])
qed

lemma no_bt_desc2: "bt \<notin> set s \<Longrightarrow> fix_desc2 s = s"
proof -
  assume h: "bt \<notin> set s"
  have "Lit [bt] \<in> set desc_re2" by (simp add: desc_re2_def)
  moreover have "\<not> sublist [bt] s"
    using h by (simp add: sublist_single)
  ultimately have "re_search desc_re2 s = None"
    using re_search_needs_literal [of desc_re2 s _ "[bt]"]
    by (cases "re_search desc_re2 s") simp_all
  then show ?thesis by (simp add: fix_desc2_def)
qed

lemma few_bt_escape2: "length (filter (\<lambda>x. x = bt) s) \<le> 2 \<Longrightarrow> fix_escape2 s = s"
  by (simp add: fix_escape2_def count_str_char)

lemma between_append: "between (a @ b) b = a"
  by (simp add: between_def)

lemma between_Nil: "between a [] = a"
  by (simp add: between_def)

lemma fix_wrap1_bare:
  assumes ws: "\<forall>c\<in>set w1. isspace c" "\<forall>c\<in>set w2. isspace c" "\<forall>c\<in>set w3. isspace c"
    and t: "t \<noteq> []" "\<not> isspace (hd t)" "\<not> isspace (last t)" "\<not> sublist ''content:'' t"
    and q: "hd t \<noteq> bt" "hd t \<noteq> sq" "hd t \<noteq> dq"
    and n: "nl \<notin> set (t @ w3)"
  shows "fix_wrap1 (w1 @ ''content:'' @ w2 @ t @ w3) = w1 @ ''content:'' @ w2 @ [bt] @ t @ [bt]"
proof -
  let ?line = "w1 @ ''content:'' @ w2 @ t @ w3"
  have g1: "contains ?line ''content:''"
    unfolding contains_def by (rule sublist_appendI)
  have g2: "\<not> contains ?line ''content: `''"
    using delimited_marker_absent [OF ws t, of bt "[]"] q by (simp add: contains_def)
  have g3: "\<not> contains ?line (''content: '' @ [sq])"
    using delimited_marker_absent [OF ws t, of sq "[]"] q by (simp add: contains_def)
  have g4: "\<not> contains ?line (''content: '' @ [dq, dq])"
    using delimited_marker_absent [OF ws t, of dq "[dq]"] q by (simp add: contains_def)
  have "strip (w1 @ (''content:'' @ w2 @ t) @ w3) = ''content:'' @ w2 @ t"
    using ws(1,3) t by (intro strip_pad) auto
  then have g5: "startswith (strip ?line) ''content:''"
    by (simp add: startswith_def)
  have m: "rx wrap_re1 (w1 @ ''content:'' @ w2 @ (t @ w3)) = Some ([t @ w3, []], [])"
    using ws t n by (intro rx_wrap_re1_bare) auto
  have s: "strip (t @ w3) = t"
    using ws t by (intro strip_pad_right) auto
  have b: "between ?line (t @ w3) = w1 @ ''content:'' @ w2"
    using between_append [of "w1 @ ''content:'' @ w2" "t @ w3"] by simp
  have st: "\<not> startswith t [bt]" "\<not> startswith t [sq]" "\<not> startswith t [dq]"
    using t(1) q by (cases t; simp add: startswith_def)+
  show ?thesis
    using g1 g2 g3 g4 g5 m s b st t(1)
    by (simp add: fix_wrap1_def between_Nil)
qed

lemma fix_wrap2_bare:
  assumes ws: "\<forall>c\<in>set w1. isspace c" "\<forall>c\<in>set w2. isspace c" "\<forall>c\<in>set w3. isspace c"
    and t: "t \<noteq> []" "\<not> isspace (hd t)" "\<not> isspace (last t)"
    and q: "hd t \<noteq> bt" "hd t \<noteq> sq" "hd t \<noteq> dq" "last t \<noteq> bt"
    and n: "nl \<notin> set (t @ w3)" "2 \<le> length (t @ w3)"
  shows "fix_wrap2 (w1 @ ''content:'' @ w2 @ t @ w3) = w1 @ ''content:'' @ w2 @ [bt] @ t @ [bt]"
proof -
  let ?line = "w1 @ ''content:'' @ w2 @ t @ w3"
  obtain x t' where xt: "t = x # t'"
    using t(1) by (cases t) auto
  define u where "u = t' @ w3"
  have xu: "t @ w3 = x # u" "x = hd t" "u \<noteq> []"
    using xt n(2) by (auto simp: u_def)
  have "rx wrap_re2 (w1 @ ''content:'' @ w2 @ x # u) = Some ([x # u, []], [])"
    using ws t q n xu by (intro rx_wrap_re2_bare) auto
  then have m: "rx wrap_re2 ?line = Some ([t @ w3, []], [])"
    using xu by simp
  have s: "strip (t @ w3) = t"
    using ws t by (intro strip_pad_right) auto
  have e: "\<not> endswith t [bt]"
    using t(1) q(4) by (cases t rule: rev_cases) (auto simp: endswith_def)
  have b: "between ?line (t @ w3) = w1 @ ''content:'' @ w2"
    using between_append [of "w1 @ ''content:'' @ w2" "t @ w3"] by simp
  show ?thesis
    using m s e b t(1) by (simp add: fix_wrap2_def between_Nil)
qed

lemma filter_absent: "c \<notin> set s \<Longrightarrow> filter (\<lambda>x. x = c) s = []"
  by (induction s) auto

lemma ws_no_bt: "\<forall>c\<in>set w. isspace c \<Longrightarrow> bt \<notin> set w"
proof
  assume "\<forall>c\<in>set w. isspace c" and "bt \<in> set w"
  then have "isspace bt" by (rule bspec)
  then show False by simp
qed

lemma absent_hd_last: "c \<notin> set t \<Longrightarrow> t \<noteq> [] \<Longrightarrow> hd t \<noteq> c \<and> last t \<noteq> c"
  using hd_in_set last_in_set by metis

lemma bare_line_no_bt:
  assumes "\<forall>c\<in>set w1. isspace c" "\<forall>c\<in>set w2. isspace c" "\<forall>c\<in>set w3. isspace c"
    "bt \<notin> set t"
  shows "bt \<notin> set (w1 @ ''content:'' @ w2 @ t @ w3)"
  using assms ws_no_bt [of w1] ws_no_bt [of w2] ws_no_bt [of w3] by simp

lemma fix_line1_bare:
  assumes ws: "\<forall>c\<in>set w1. isspace c" "\<forall>c\<in>set w2. isspace c" "\<forall>c\<in>set w3. isspace c"
    and t: "t \<noteq> []" "\<not> isspace (hd t)" "\<not> isspace (last t)" "\<not> sublist ''content:'' t"
    and q: "bt \<notin> set t" "hd t \<noteq> sq" "hd t \<noteq> dq"
    and n: "nl \<notin> set (t @ w3)"
  shows "fix_line1 (w1 @ ''content:'' @ w2 @ t @ w3) = w1 @ ''content:'' @ w2 @ [bt] @ t @ [bt]"
proof -
  let ?line = "w1 @ ''content:'' @ w2 @ t @ w3"
  have nb: "bt \<notin> set ?line"
    using ws q(1) by (rule bare_line_no_bt)
  have h: "hd t \<noteq> bt"
    using absent_hd_last [OF q(1) t(1)] by simp
  have "fix_line1 ?line = fix_wrap1 ?line"
    unfolding fix_line1_def
    by (simp only: no_bt_role1 [OF nb] no_bt_desc1 [OF nb] no_bt_escape1 [OF nb])
  also have "\<dots> = w1 @ ''content:'' @ w2 @ [bt] @ t @ [bt]"
    using ws t h q(2,3) n by (rule fix_wrap1_bare)
  finally show ?thesis .
qed

lemma fix_line2_bare:
  assumes ws: "\<forall>c\<in>set w1. isspace c" "\<forall>c\<in>set w2. isspace c" "\<forall>c\<in>set w3. isspace c"
    and t: "t \<noteq> []" "\<not> isspace (hd t)" "\<not> isspace (last t)"
    and q: "bt \<notin> set t" "hd t \<noteq> sq" "hd t \<noteq> dq"
    and n: "nl \<notin> set (t @ w3)" "2 \<le> length (t @ w3)"
  shows "fix_line2 (w1 @ ''content:'' @ w2 @ t @ w3) = w1 @ ''content:'' @ w2 @ [bt] @ t @ [bt]"
proof -
  let ?line = "w1 @ ''content:'' @ w2 @ t @ w3"
  let ?res = "w1 @ ''content:'' @ w2 @ [bt] @ t @ [bt]"
  have nb: "bt \<notin> set ?line"
    using ws q(1) by (rule bare_line_no_bt)
  have h: "hd t \<noteq> bt" "last t \<noteq> bt"
    using absent_hd_last [OF q(1) t(1)] by simp_all
  have c: "contains ?line ''content:''"
    unfolding contains_def by (rule sublist_appendI)
  have w: "fix_wrap2 ?line = ?res"
    using ws t h(1) q(2,3) h(2) n by (rule fix_wrap2_bare)
  note f = filter_absent [OF ws_no_bt [OF ws(1)]] filter_absent [OF ws_no_bt [OF ws(2)]]
    filter_absent [OF q(1)]
  have e: "fix_escape2 ?res = ?res"
    by (rule few_bt_escape2) (simp add: f)
  show ?thesis
    unfolding fix_line2_def
    by (simp only: no_bt_role2 [OF nb] no_bt_desc2 [OF nb] Let_def c if_True w e)
qed

section \<open>Content lines that open a template literal\<close>

lemma find_sep_after_ws:
  "sep \<noteq> [] \<Longrightarrow> \<not> isspace (hd sep) \<Longrightarrow> \<forall>c\<in>set w. isspace c
   \<Longrightarrow> find_sep sep (w @ sep @ r) = Some (w, r)"
proof (induction w)
  case Nil
  then show ?case by (cases sep) auto
next
  case (Cons x w)
  then have "\<not> prefix sep (x # w @ sep @ r)"
    by (cases sep) (auto simp: prefix_Cons)
  then show ?case using Cons by simp
qed

lemma split1_after_ws:
  "\<forall>c\<in>set w. isspace c \<Longrightarrow> split1 ''content: `'' (w @ ''content: `'' @ r) = [w, r]"
  using find_sep_after_ws [of "''content: `''" w r] by (simp add: split1_def)

lemma split_hd_after_ws:
  "\<forall>c\<in>set w. isspace c \<Longrightarrow> hd (split ''content: `'' (w @ ''content: `'' @ r)) = w"
  using find_sep_after_ws [of "''content: `''" w r]
  by (subst split.simps) simp



lemma strip_keeps_last:
  assumes "s \<noteq> []" "\<not> isspace (last s)"
  shows "strip s \<noteq> [] \<and> last (strip s) = last s"
proof -
  obtain u x where s: "s = u @ [x]"
    using assms(1) by (cases s rule: rev_cases) auto
  have x: "\<not> isspace x" using assms(2) s by simp
  have "dropWhile isspace (u @ [x]) = (if \<forall>c\<in>set u. isspace c then [] else dropWhile isspace u) @ [x]"
    using x by (simp add: dropWhile_append)
  then obtain v where v: "dropWhile isspace (u @ [x]) = v @ [x]" ..
  show ?thesis
    using x by (simp add: strip_def s v)
qed








lemma last_endswith: "t \<noteq> [] \<Longrightarrow> last t = c \<Longrightarrow> endswith t [c]"
  by (cases t rule: rev_cases) (auto simp: endswith_def)


lemma contains_sep: "contains (w @ ''content: `'' @ r) ''content: `''"
  unfolding contains_def by (rule sublist_appendI)


lemma fix_escape1_after_ws:
  assumes ws: "\<forall>c\<in>set w. isspace c"
    and g: "\<not> endswith (strip (w @ ''content: `'' @ cp)) [bt]"
    and b: "bt \<in> set cp"
  shows "fix_escape1 (w @ ''content: `'' @ cp) = w @ ''content: `'' @ escape_backticks cp"
proof -
  let ?line = "w @ ''content: `'' @ cp"
  have cp: "cp \<noteq> []" using b by auto
  have "\<not> endswith cp [bt]"
  proof
    assume "endswith cp [bt]"
    then have "last cp = bt"
      using cp by (cases cp rule: rev_cases) (auto simp: endswith_def)
    then have l: "?line \<noteq> []" "last ?line = bt"
      using cp by simp_all
    then have "strip ?line \<noteq> [] \<and> last (strip ?line) = bt"
      using strip_keeps_last [of ?line] by simp
    then have "endswith (strip ?line) [bt]"
      using last_endswith by blast
    then show False using g by simp
  qed
  then show ?thesis
    using g b contains_sep [of w cp] split1_after_ws [OF ws, of cp] split_hd_after_ws [OF ws, of cp]
    by (simp add: fix_escape1_def contains_def sublist_single)
qed

lemma fix_wrap1_delimited: "fix_wrap1 (w @ ''content: `'' @ r) = w @ ''content: `'' @ r"
  using contains_sep [of w r] by (simp add: fix_wrap1_def)





lemma escape_from_fixed: "all_escaped b s \<Longrightarrow> escape_from b s = s"
  by (induction s arbitrary: b) auto


lemma fix_escape1_all_escaped:
  assumes ws: "\<forall>c\<in>set w. isspace c" and e: "all_escaped False text"
  shows "fix_escape1 (w @ ''content: `'' @ text) = w @ ''content: `'' @ text"
proof (cases "\<not> endswith (strip (w @ ''content: `'' @ text)) [bt] \<and> bt \<in> set text")
  case True
  then show ?thesis
    using fix_escape1_after_ws [OF ws, of "text"] escape_from_fixed [OF e]
    by (simp add: escape_backticks_def)
next
  case False
  then show ?thesis
    using split1_after_ws [OF ws, of "text"]
    by (auto simp: fix_escape1_def contains_def sublist_single)
qed

lemma fix_line1_opening:
  assumes ws: "\<forall>c\<in>set w. isspace c" and e: "all_escaped False text"
    and nr: "\<not> contains (w @ ''content: `'' @ text) ''role:''"
    and nd: "\<not> contains (w @ ''content: `'' @ text) ''description:''"
  shows "fix_line1 (w @ ''content: `'' @ text) = w @ ''content: `'' @ text"
  unfolding fix_line1_def
  by (simp only: fix_role1_id [OF nr] fix_desc1_id [OF nd] fix_escape1_all_escaped [OF ws e]
      fix_wrap1_delimited)

lemma find_sep_char_None: "c \<notin> set s \<Longrightarrow> find_sep [c] s = None"
  by (induction s) auto

lemma find_sep_char_first: "c \<notin> set p \<Longrightarrow> find_sep [c] (p @ c # r) = Some (p, r)"
  by (induction p) auto

lemma split_join:
  "ls \<noteq> [] \<Longrightarrow> \<forall>l\<in>set ls. c \<notin> set l \<Longrightarrow> split [c] (join [c] ls) = ls"
proof (induction "[c]" ls rule: join.induct)
  case 1
  then show ?case by simp
next
  case (2 p)
  then show ?case by (subst split.simps) (simp add: find_sep_char_None)
next
  case (3 p q ps)
  then have "split [c] (join [c] (q # ps)) = q # ps" by simp
  then show ?case
    using 3 by (subst split.simps) (simp add: find_sep_char_first)
qed

lemma fix_content1_join:
  "ls \<noteq> [] \<Longrightarrow> \<forall>l\<in>set ls. nl \<notin> set l
   \<Longrightarrow> fix_content1 (join [nl] ls) = join [nl] (map fix_line1 ls)"
  by (simp add: fix_content1_def split_join)

lemma fix_content2_join:
  "ls \<noteq> [] \<Longrightarrow> \<forall>l\<in>set ls. nl \<notin> set l
   \<Longrightarrow> fix_content2 (join [nl] ls) = join [nl] (map fix_line2 ls)"
  by (simp add: fix_content2_def split_join)

section \<open>Role lines\<close>






























section \<open>Escaping what is escaped\<close>



lemma escape_from_has_bt: "bt \<in> set (escape_from b s) \<longleftrightarrow> bt \<in> set s"
  by (induction s arbitrary: b) auto





section \<open>Repaired lines\<close>








section \<open>Description lines\<close>















section \<open>Backticks removed in pairs\<close>




















section \<open>A second pass\<close>










section \<open>The claims\<close>

text \<open>
  C1. A single-line content field with an unescaped backtick inside and a closing
  backtick followed by a comma should come out with the inner backticks escaped and
  the closing backtick and comma as they were: \<^verbatim>\<open>content: `Use `code` here`,\<close> should
  become \<^verbatim>\<open>content: `Use \`code\` here`,\<close>. Neither script does that. The first one
  escapes the closing backtick as well. In the second one the pattern of case 1 gives
  the blank after \<^verbatim>\<open>content:\<close> back to the value, so the line is taken for bare text
  and wrapped in a second pair of backticks; case 2, whose comments describe the
  closing \<^verbatim>\<open>`,\<close>, then no longer finds \<^verbatim>\<open>content: `\<close>.
\<close>

theorem interior_escaping_broken:
  "fix_line1 ''content: `Use `code` here`,''
     = ''content: `Use '' @ [bs] @ ''`code'' @ [bs] @ ''` here'' @ [bs] @ ''`,''
   \<and> fix_line2 ''content: `Use `code` here`,'' = ''content:``Use `code` here`,`''"
  by code_simp




text \<open>
  C3. A description whose quoted value holds a backtick should lose every backtick of
  the value. The second script removes the backticks in pairs, over the whole line, so
  a value with one backtick keeps it; the first script removes it.
\<close>

theorem description_single_marker_kept:
  "fix_line2 (''description: '' @ [sq] @ ''the ` key'' @ [sq] @ '','')
     = ''description: '' @ [sq] @ ''the ` key'' @ [sq] @ '',''
   \<and> fix_line1 (''description: '' @ [sq] @ ''the ` key'' @ [sq] @ '','')
     = ''description: '' @ [sq] @ ''the  key'' @ [sq] @ '',''"
  by code_simp




text \<open>
  C8. A line that contains none of \<^verbatim>\<open>role:\<close>, \<^verbatim>\<open>description:\<close> and \<^verbatim>\<open>content:\<close> leaves
  one pass of either script as it entered.
\<close>

theorem unrelated_lines_untouched:
  assumes "\<not> contains line ''role:''" "\<not> contains line ''description:''"
    "\<not> contains line ''content:''"
  shows "fix_line1 line = line \<and> fix_line2 line = line"
  using assms by (simp add: no_marker_unchanged1 no_marker_unchanged2)

theorem unrelated_lines_untouched_witness:
  "\<not> contains ''  const x = 1;'' ''role:'' \<and> \<not> contains ''  const x = 1;'' ''description:''
   \<and> \<not> contains ''  const x = 1;'' ''content:''
   \<and> fix_line1 ''  const x = 1;'' = ''  const x = 1;''
   \<and> fix_line2 ''  const x = 1;'' = ''  const x = 1;''"
proof -
  have h: "\<not> contains ''  const x = 1;'' ''role:''" "\<not> contains ''  const x = 1;'' ''description:''"
    "\<not> contains ''  const x = 1;'' ''content:''"
    by (simp_all add: contains_def sublist_code)
  show ?thesis using h unrelated_lines_untouched [OF h] by simp
qed

text \<open>
  C9. The claim that both scripts take the path from the command line fails for the
  second script: given \<^verbatim>\<open>other.ts\<close> it still repairs and names
  \<^verbatim>\<open>src/data/chapters.ts\<close> and leaves \<^verbatim>\<open>other.ts\<close> alone.
\<close>

theorem second_script_ignores_argument:
  "main2 [''fix_backticks2.py'', ''other.ts'']
     [''other.ts'' \<mapsto> ''content: Hello'', ''src/data/chapters.ts'' \<mapsto> ''content: World'']
   = Inr ([''other.ts'' \<mapsto> ''content: Hello'', ''src/data/chapters.ts'' \<mapsto> ''content: `World`''],
          [''Fixed src/data/chapters.ts''])"
proof -
  have "fix_content2 ''content: World'' = ''content: `World`''"
    by code_simp
  then show ?thesis
    by (simp add: main2_def fix_file2_def)
qed

text \<open>
  C9, amended. The first script repairs the file named by its first argument, or
  \<^verbatim>\<open>src/data/chapters.ts\<close> when there is no argument; the second script repairs
  \<^verbatim>\<open>src/data/chapters.ts\<close> whatever the arguments. The file repaired is the only one
  that changes, and the one line printed names it.
\<close>

theorem command_line_paths:
  "main1 [prog] (fs(''src/data/chapters.ts'' \<mapsto> c))
     = Inr (fs(''src/data/chapters.ts'' \<mapsto> fix_content1 c), [''Fixed src/data/chapters.ts''])
   \<and> main1 (prog # path # more) (fs(path \<mapsto> c))
     = Inr (fs(path \<mapsto> fix_content1 c), [''Fixed '' @ path])
   \<and> main2 argv (fs(''src/data/chapters.ts'' \<mapsto> c))
     = Inr (fs(''src/data/chapters.ts'' \<mapsto> fix_content2 c), [''Fixed src/data/chapters.ts''])"
  by (simp add: main1_def main2_def fix_file1_def fix_file2_def Let_def)

text \<open>
  C10. In both scripts the wrap rule strips the value: on a bare content line whose
  value is followed by blanks, the blanks are not kept between the backticks.
\<close>

theorem wrap_strips_trailing_whitespace:
  assumes "\<forall>c\<in>set w1. isspace c" "\<forall>c\<in>set w2. isspace c" "\<forall>c\<in>set w3. isspace c"
    and "w3 \<noteq> []"
    and "t \<noteq> []" "\<not> isspace (hd t)" "\<not> isspace (last t)"
    and "bt \<notin> set t" "hd t \<noteq> sq" "hd t \<noteq> dq" "\<not> contains t ''content:''"
    and "nl \<notin> set (t @ w3)"
  shows "fix_line1 (w1 @ ''content:'' @ w2 @ t @ w3) = w1 @ ''content:'' @ w2 @ [bt] @ t @ [bt]
       \<and> fix_line2 (w1 @ ''content:'' @ w2 @ t @ w3) = w1 @ ''content:'' @ w2 @ [bt] @ t @ [bt]"
proof
  show "fix_line1 (w1 @ ''content:'' @ w2 @ t @ w3) = w1 @ ''content:'' @ w2 @ [bt] @ t @ [bt]"
    using assms unfolding contains_def by (intro fix_line1_bare)
  have "2 \<le> length (t @ w3)"
    using assms(4,5) by (cases t; cases w3) simp_all
  then show "fix_line2 (w1 @ ''content:'' @ w2 @ t @ w3) = w1 @ ''content:'' @ w2 @ [bt] @ t @ [bt]"
    using assms by (intro fix_line2_bare)
qed

theorem wrap_strips_trailing_whitespace_witness:
  "fix_line1 ''content: Hello '' = ''content: `Hello`''
   \<and> fix_line2 ''content: Hello '' = ''content: `Hello`''"
  using wrap_strips_trailing_whitespace [of "[]" "'' ''" "'' ''" "''Hello''"]
  by (simp add: isspace_def contains_def sublist_code)



text \<open>
  C6. The claim that every line of a content value spanning several lines passes
  unchanged fails: the scripts work line by line and keep no state, so an inner line
  that looks like a bare content field is wrapped by both.
\<close>

theorem multi_line_value_interior_wrapped:
  "fix_content1 (''  content: `Example:'' @ [nl] @ ''  content: prompt,'' @ [nl] @ ''end of example`,'')
     = ''  content: `Example:'' @ [nl] @ ''  content: `prompt,`'' @ [nl] @ ''end of example`,''
   \<and> fix_content2 (''  content: `Example:'' @ [nl] @ ''  content: prompt,'' @ [nl] @ ''end of example`,'')
     = ''  content:``Example:`'' @ [nl] @ ''  content: `prompt,`'' @ [nl] @ ''end of example`,''"
  by code_simp

text \<open>
  C6, amended. Of a content value that spans several lines: the first script leaves
  the opening line (blanks, \<^verbatim>\<open>content: `\<close>, text) unchanged when every backtick of
  the text is escaped and the line holds no \<^verbatim>\<open>role:\<close> and no \<^verbatim>\<open>description:\<close>; both
  scripts leave unchanged every later line that holds none of \<^verbatim>\<open>role:\<close>,
  \<^verbatim>\<open>description:\<close> and \<^verbatim>\<open>content:\<close>.
\<close>

theorem multi_line_value_untouched:
  assumes "\<forall>c\<in>set w. isspace c" "all_escaped False body"
    and "\<not> contains (w @ ''content: `'' @ body) ''role:''"
    and "\<not> contains (w @ ''content: `'' @ body) ''description:''"
    and "nl \<notin> set (w @ ''content: `'' @ body)"
    and "\<forall>l\<in>set rest. nl \<notin> set l \<and> \<not> contains l ''role:'' \<and> \<not> contains l ''description:''
           \<and> \<not> contains l ''content:''"
  shows "fix_content1 (join [nl] ((w @ ''content: `'' @ body) # rest))
           = join [nl] ((w @ ''content: `'' @ body) # rest)
       \<and> fix_content2 (join [nl] ((w @ ''content: `'' @ body) # rest))
           = join [nl] (fix_line2 (w @ ''content: `'' @ body) # rest)"
proof -
  let ?o = "w @ ''content: `'' @ body"
  have n: "\<forall>l\<in>set (?o # rest). nl \<notin> set l"
    using assms(5,6) by simp
  have r1: "map fix_line1 rest = rest"
    using assms(6) by (intro map_idI) (simp add: no_marker_unchanged1)
  have r2: "map fix_line2 rest = rest"
    using assms(6) by (intro map_idI) (simp add: no_marker_unchanged2)
  have o: "fix_line1 ?o = ?o"
    using assms(1-4) by (rule fix_line1_opening)
  have "fix_content1 (join [nl] (?o # rest)) = join [nl] (map fix_line1 (?o # rest))"
    using n by (intro fix_content1_join) simp_all
  moreover have "fix_content2 (join [nl] (?o # rest)) = join [nl] (map fix_line2 (?o # rest))"
    using n by (intro fix_content2_join) simp_all
  ultimately show ?thesis
    by (simp only: list.map r1 r2 o)
qed

theorem multi_line_value_untouched_witness:
  "fix_content1 (''  content: `Example:'' @ [nl] @ ''  use '' @ [bs] @ ''`x'' @ [bs] @ ''` here'' @ [nl] @ ''end of example`,'')
     = ''  content: `Example:'' @ [nl] @ ''  use '' @ [bs] @ ''`x'' @ [bs] @ ''` here'' @ [nl] @ ''end of example`,''"
  using multi_line_value_untouched [of "''  ''" "''Example:''"
      "[''  use '' @ [bs] @ ''`x'' @ [bs] @ ''` here'', ''end of example`,'']"]
  by (simp add: isspace_def contains_def sublist_code)



end
